theory Spec2Isabelle
  imports Main
begin

section \<open>Python values, strings and errors\<close>

text \<open>
  The option dictionary of \<^verbatim>\<open>build_nmap_command\<close> maps option names to Python values.
  Only their truthiness and, for \<^verbatim>\<open>scan_type\<close>, their string content are used.
\<close>

datatype py_value = PyNone | PyBool bool | PyInt int | PyStr string

fun truthy :: "py_value \<Rightarrow> bool" where
  "truthy PyNone = False"
| "truthy (PyBool b) = b"
| "truthy (PyInt i) = (i \<noteq> 0)"
| "truthy (PyStr s) = (s \<noteq> [])"

type_synonym options = "string \<rightharpoonup> py_value"

text \<open>\<^verbatim>\<open>options.get(k)\<close>: the value, or \<^verbatim>\<open>None\<close> for an absent key.\<close>

definition dict_get :: "options \<Rightarrow> string \<Rightarrow> py_value" where
  "dict_get d k = (case d k of None \<Rightarrow> PyNone | Some v \<Rightarrow> v)"

text \<open>
  Exceptions, each with the text \<^verbatim>\<open>str(e)\<close> gives. \<open>OtherError\<close> stands for any
  other subclass of \<^verbatim>\<open>Exception\<close> (the failures of \<^verbatim>\<open>Popen\<close> and of reading the pipe).
\<close>

datatype py_error =
    ValueError string
  | IndexError string
  | AttributeError string
  | OtherError string

fun str_of :: "py_error \<Rightarrow> string" where
  "str_of (ValueError m) = m"
| "str_of (IndexError m) = m"
| "str_of (AttributeError m) = m"
| "str_of (OtherError m) = m"

text \<open>The text of the AttributeError for a missing attribute \<open>a\<close> on a value of type \<open>ty\<close>.\<close>

definition no_attribute :: "string \<Rightarrow> string \<Rightarrow> string" where
  "no_attribute ty a =
     [CHR 0x27] @ ty @ [CHR 0x27] @ '' object has no attribute '' @ [CHR 0x27] @ a @ [CHR 0x27]"

text \<open>\<^verbatim>\<open>sep in s\<close>: some position of \<open>s\<close> starts with \<open>sep\<close>.\<close>

fun str_contains :: "string \<Rightarrow> string \<Rightarrow> bool" where
  "str_contains sep [] = (sep = [])"
| "str_contains sep (c # cs) = (take (length sep) (c # cs) = sep \<or> str_contains sep cs)"

text \<open>
  \<^verbatim>\<open>s.split(sep)\<close> for a non-empty separator: the text is cut at the leftmost occurrences
  of \<open>sep\<close> that do not overlap. \<open>cur\<close> is the field being read.
\<close>

fun split_from :: "string \<Rightarrow> string \<Rightarrow> string \<Rightarrow> string list" where
  "split_from sep cur [] = [cur]"
| "split_from sep cur (c # cs) =
     (if sep \<noteq> [] \<and> take (length sep) (c # cs) = sep
      then cur # split_from sep [] (drop (length sep - 1) cs)
      else split_from sep (cur @ [c]) cs)"

definition str_split :: "string \<Rightarrow> string \<Rightarrow> string list" where
  "str_split s sep = split_from sep [] s"

text \<open>\<^verbatim>\<open>sep.join(xs)\<close>.\<close>

fun str_join :: "string \<Rightarrow> string list \<Rightarrow> string" where
  "str_join sep [] = []"
| "str_join sep [x] = x"
| "str_join sep (x # y # ys) = x @ sep @ str_join sep (y # ys)"

text \<open>
  \<^verbatim>\<open>s.strip()\<close> removes white space at both ends. Characters are code points below 256;
  the white space among them is 9 to 13, 28 to 32, 133 and 160.
\<close>

definition py_isspace :: "char \<Rightarrow> bool" where
  "py_isspace c = (of_char c \<in> {9, 10, 11, 12, 13, 28, 29, 30, 31, 32, 133, 160 :: nat})"

definition py_strip :: "string \<Rightarrow> string" where
  "py_strip s = rev (dropWhile py_isspace (rev (dropWhile py_isspace s)))"

text \<open>\<^verbatim>\<open>s.rstrip()\<close> removes white space at the end only (what the specification describes).\<close>

definition py_rstrip :: "string \<Rightarrow> string" where
  "py_rstrip s = rev (dropWhile py_isspace (rev s))"

section \<open>The command builder\<close>

text \<open>
  Lines 31-32: \<^verbatim>\<open>if options.get("scan_type"): base_command.append(options["scan_type"].split(": ")[1])\<close>.
  A truthy value that is not a string has no \<^verbatim>\<open>split\<close>; a string with no separator
  splits into one field, and index 1 is out of range.
\<close>

definition scan_type_flag :: "options \<Rightarrow> py_error + string list" where
  "scan_type_flag opts =
     (let v = dict_get opts ''scan_type'' in
      if truthy v then
        (case v of
           PyStr s \<Rightarrow>
             (let parts = str_split s '': '' in
              if 1 < length parts then Inr [parts ! 1]
              else Inl (IndexError ''list index out of range''))
         | PyBool _ \<Rightarrow> Inl (AttributeError (no_attribute ''bool'' ''split''))
         | PyInt _ \<Rightarrow> Inl (AttributeError (no_attribute ''int'' ''split''))
         | PyNone \<Rightarrow> Inr [])
      else Inr [])"

text \<open>
  \<^verbatim>\<open>build_nmap_command(target, port_range, options)\<close>, lines 30-49. The target and the
  port range are strings or \<^verbatim>\<open>None\<close>; \<^verbatim>\<open>f"-p{port_range}"\<close> is \<open>''-p'' @ p\<close>. The
  result is the list returned, or the exception raised.
\<close>

definition build_nmap_command ::
  "string option \<Rightarrow> string option \<Rightarrow> options \<Rightarrow> py_error + string list" where
  "build_nmap_command target port_range opts =
     (case scan_type_flag opts of
        Inl e \<Rightarrow> Inl e
      | Inr flag \<Rightarrow>
          (let c1 = [''nmap''] @ flag;
               c2 = (case port_range of
                       Some p \<Rightarrow> if p \<noteq> [] then c1 @ [''-p'' @ p] else c1
                     | None \<Rightarrow> c1);
               c3 = (if truthy (dict_get opts ''service_scan'') then c2 @ [''-sV''] else c2);
               c4 = (if truthy (dict_get opts ''os_detection'') then c3 @ [''-O''] else c3);
               c5 = (if truthy (dict_get opts ''aggressive_scan'') then c4 @ [''-A''] else c4);
               c6 = (if truthy (dict_get opts ''verbose'') then c5 @ [''-v''] else c5);
               c7 = (if truthy (dict_get opts ''no_ping'') then c6 @ [''-Pn''] else c6)
           in (case target of
                 Some t \<Rightarrow>
                   if t \<noteq> [] then Inr (c7 @ [t])
                   else Inl (ValueError ''Target cannot be empty.'')
               | None \<Rightarrow> Inl (ValueError ''Target cannot be empty.''))))"

section \<open>The scan controller\<close>

text \<open>
  \<^verbatim>\<open>start_scan\<close> and \<^verbatim>\<open>stop_scan\<close> run in the caller's thread, \<^verbatim>\<open>run_scan\<close> in a thread of
  its own, and the child process beside them. The model interleaves them statement by
  statement: a state of the whole (\<open>world\<close>), one step function per method, and a
  schedule (a list of actions) that says who moves next. The result callback is taken to
  append its line to a log and to return; the failures of \<^verbatim>\<open>Popen\<close> and of reading the pipe
  are instances of \<^verbatim>\<open>Exception\<close>.

  The child process, as the controller sees it: the lines it has written on its standard
  output so far, how many of them the reader has taken, and whether it has exited.
\<close>

record proc =
  argv :: "string list"
  stdout_lines :: "string list"
  read_pos :: nat
  exited :: bool

text \<open>
  One control point per statement of the source, named by its line. A blocking call has a
  second control point (\<open>_wait\<close>) at which the caller is blocked.

  \<^verbatim>\<open>terminate_scan_process\<close>, lines 78-86. \<open>T85\<close> and \<open>T86\<close> are the two statements of the
  \<^verbatim>\<open>finally\<close> clause; they carry the exception that is raised again after them, if any.
\<close>

datatype term_pc =
    T78
  | T80
  | T81
  | T81_wait nat
  | T83
  | T85 "py_error option"
  | T86 "py_error option"

text \<open>\<^verbatim>\<open>run_scan\<close>, lines 58-74, with \<^verbatim>\<open>cleanup_process\<close> (lines 90-91) as its \<^verbatim>\<open>finally\<close>.\<close>

datatype run_pc =
    R58 "string list"
  | R59 "string list"
  | R62_iter
  | R62_next nat
  | R63 nat string
  | R64 term_pc
  | R65
  | R67 nat string
  | R68
  | R68_wait nat
  | R69
  | R70
  | R72 py_error
  | R90
  | R91
  | R_finished

text \<open>The caller of \<^verbatim>\<open>start_scan\<close> and \<^verbatim>\<open>stop_scan\<close>: outside a call, or inside \<^verbatim>\<open>stop_scan\<close>.\<close>

datatype fg_pc = F_idle | F114 | F115 term_pc

text \<open>
  The fields of \<^verbatim>\<open>NmapRunner\<close> (a thread and a process are named by their index in
  \<open>threads\<close> and \<open>procs\<close>), the lines handed to \<^verbatim>\<open>update_result_callback\<close> in order, every
  thread ever started with its control point, every process ever spawned, the caller's
  control point, and the exceptions that reached the caller.
\<close>

record world =
  scan_thread :: "nat option"
  scan_process :: "nat option"
  stop_event :: bool
  log :: "string list"
  threads :: "run_pc list"
  procs :: "proc list"
  fg :: fg_pc
  raised :: "py_error list"

text \<open>\<^verbatim>\<open>__init__\<close>, lines 14-18.\<close>

definition init_world :: world where
  "init_world =
     \<lparr>scan_thread = None, scan_process = None, stop_event = False, log = [],
      threads = [], procs = [], fg = F_idle, raised = []\<rparr>"

definition emit :: "string \<Rightarrow> world \<Rightarrow> world" where
  "emit l w = w\<lparr>log := log w @ [l]\<rparr>"

text \<open>\<^verbatim>\<open>p.poll() is None\<close>.\<close>

definition proc_running :: "world \<Rightarrow> nat \<Rightarrow> bool" where
  "proc_running w p = (p < length (procs w) \<and> \<not> exited (procs w ! p))"

text \<open>\<^verbatim>\<open>t.is_alive()\<close>.\<close>

definition thread_alive :: "world \<Rightarrow> nat \<Rightarrow> bool" where
  "thread_alive w t = (t < length (threads w) \<and> threads w ! t \<noteq> R_finished)"

text \<open>Process \<open>p\<close> is gone: it has exited by itself, or \<^verbatim>\<open>kill()\<close> has removed it.\<close>

definition set_exited :: "nat \<Rightarrow> world \<Rightarrow> world" where
  "set_exited p w =
     (if p < length (procs w)
      then w\<lparr>procs := (procs w)[p := (procs w ! p)\<lparr>exited := True\<rparr>]\<rparr>
      else w)"

datatype term_result = Continue term_pc | Returned | Raised py_error

text \<open>
  One statement of \<^verbatim>\<open>terminate_scan_process\<close>. \<^verbatim>\<open>terminate()\<close> only sends a signal: whether
  and when the process exits is the process's move. \<^verbatim>\<open>wait(timeout=2)\<close> returns when the
  process has exited and raises \<^verbatim>\<open>TimeoutExpired\<close> otherwise, which line 83 handles.
\<close>

fun terminate_scan_process :: "term_pc \<Rightarrow> world \<Rightarrow> term_result \<times> world" where
  "terminate_scan_process T78 w =
     (case scan_process w of
        None \<Rightarrow> (Returned, w)
      | Some p \<Rightarrow> (Continue T80, w))"
| "terminate_scan_process T80 w =
     (case scan_process w of
        None \<Rightarrow> (Continue (T85 (Some (AttributeError (no_attribute ''NoneType'' ''terminate'')))), w)
      | Some p \<Rightarrow> (Continue T81, w))"
| "terminate_scan_process T81 w =
     (case scan_process w of
        None \<Rightarrow> (Continue (T85 (Some (AttributeError (no_attribute ''NoneType'' ''wait'')))), w)
      | Some p \<Rightarrow> (Continue (T81_wait p), w))"
| "terminate_scan_process (T81_wait p) w =
     (if proc_running w p then (Continue T83, w) else (Continue (T85 None), w))"
| "terminate_scan_process T83 w =
     (case scan_process w of
        None \<Rightarrow> (Continue (T85 (Some (AttributeError (no_attribute ''NoneType'' ''kill'')))), w)
      | Some p \<Rightarrow> (Continue (T85 None), set_exited p w))"
| "terminate_scan_process (T85 e) w = (Continue (T86 e), w\<lparr>scan_process := None\<rparr>)"
| "terminate_scan_process (T86 e) w =
     ((case e of None \<Rightarrow> Returned | Some x \<Rightarrow> Raised x), w\<lparr>stop_event := False\<rparr>)"

text \<open>
  One statement of \<^verbatim>\<open>run_scan\<close>: the next control point and the new state, or \<open>None\<close> when
  the thread is blocked (reading an empty pipe of a running process, waiting for a running
  process) or has finished.
\<close>

fun run_scan :: "run_pc \<Rightarrow> world \<Rightarrow> (run_pc \<times> world) option" where
  "run_scan (R58 cmd) w = Some (R59 cmd, emit (''Starting scan: '' @ str_join '' '' cmd) w)"
| "run_scan (R59 cmd) w =
     Some (R62_iter,
           w\<lparr>procs := procs w @ [\<lparr>argv = cmd, stdout_lines = [], read_pos = 0, exited = False\<rparr>],
             scan_process := Some (length (procs w))\<rparr>)"
| "run_scan R62_iter w =
     (case scan_process w of
        None \<Rightarrow> Some (R72 (AttributeError (no_attribute ''NoneType'' ''stdout'')), w)
      | Some p \<Rightarrow> Some (R62_next p, w))"
| "run_scan (R62_next p) w =
     (if p < length (procs w) then
        (let pr = procs w ! p in
         if read_pos pr < length (stdout_lines pr)
         then Some (R63 p (stdout_lines pr ! read_pos pr),
                    w\<lparr>procs := (procs w)[p := pr\<lparr>read_pos := Suc (read_pos pr)\<rparr>]\<rparr>)
         else if exited pr then Some (R68, w)
         else None)
      else None)"
| "run_scan (R63 p l) w = Some (if stop_event w then R64 T78 else R67 p l, w)"
| "run_scan (R64 t) w =
     (case terminate_scan_process t w of
        (Continue t', w') \<Rightarrow> Some (R64 t', w')
      | (Returned, w') \<Rightarrow> Some (R65, w')
      | (Raised e, w') \<Rightarrow> Some (R72 e, w'))"
| "run_scan R65 w = Some (R90, emit ''Scan stopped by user.'' w)"
| "run_scan (R67 p l) w = Some (R62_next p, emit (py_strip l) w)"
| "run_scan R68 w =
     (case scan_process w of
        None \<Rightarrow> Some (R72 (AttributeError (no_attribute ''NoneType'' ''wait'')), w)
      | Some q \<Rightarrow> Some (R68_wait q, w))"
| "run_scan (R68_wait q) w = (if proc_running w q then None else Some (R69, w))"
| "run_scan R69 w = Some (if \<not> stop_event w then R70 else R90, w)"
| "run_scan R70 w = Some (R90, emit ''Scan completed successfully.'' w)"
| "run_scan (R72 e) w = Some (R90, emit (''Error: '' @ str_of e) w)"
| "run_scan R90 w = Some (R91, w\<lparr>scan_process := None\<rparr>)"
| "run_scan R91 w = Some (R_finished, w\<lparr>stop_event := False\<rparr>)"
| "run_scan R_finished w = None"

text \<open>
  \<^verbatim>\<open>start_scan\<close>, lines 101-107: the exception of the builder, or the new state. The new
  thread stands before line 58. The call is one step: past line 101 no thread of a scan is
  alive to move between its statements, and before it only the callback is called.
\<close>

definition session_active :: "world \<Rightarrow> bool" where
  "session_active w = (case scan_thread w of None \<Rightarrow> False | Some t \<Rightarrow> thread_alive w t)"

definition start_scan ::
  "string option \<Rightarrow> string option \<Rightarrow> options \<Rightarrow> world \<Rightarrow> py_error + world" where
  "start_scan target port_range opts w =
     (if session_active w
      then Inr (emit ''A scan is already in progress. Please wait.'' w)
      else (case build_nmap_command target port_range opts of
              Inl e \<Rightarrow> Inl e
            | Inr cmd \<Rightarrow>
                Inr (w\<lparr>stop_event := False,
                       scan_thread := Some (length (threads w)),
                       threads := threads w @ [R58 cmd]\<rparr>)))"

text \<open>
  \<^verbatim>\<open>stop_scan\<close>: the test of line 113, with the \<^verbatim>\<open>else\<close> branch (line 117) when it fails, is
  the step of the call; lines 114 and 115 are the steps that follow.
\<close>

definition stop_scan :: "world \<Rightarrow> world" where
  "stop_scan w =
     (if (case scan_process w of None \<Rightarrow> False | Some p \<Rightarrow> proc_running w p)
      then w\<lparr>fg := F114\<rparr>
      else emit ''No active scan to stop.'' w)"

fun stop_scan_step :: "fg_pc \<Rightarrow> world \<Rightarrow> world option" where
  "stop_scan_step F_idle w = None"
| "stop_scan_step F114 w = Some (w\<lparr>stop_event := True, fg := F115 T78\<rparr>)"
| "stop_scan_step (F115 t) w =
     (case terminate_scan_process t w of
        (Continue t', w') \<Rightarrow> Some (w'\<lparr>fg := F115 t'\<rparr>)
      | (Returned, w') \<Rightarrow> Some (w'\<lparr>fg := F_idle\<rparr>)
      | (Raised e, w') \<Rightarrow> Some (w'\<lparr>fg := F_idle, raised := raised w' @ [e]\<rparr>))"

text \<open>
  What can happen next: the caller calls \<^verbatim>\<open>start_scan\<close> or \<^verbatim>\<open>stop_scan\<close>, or goes on inside
  \<^verbatim>\<open>stop_scan\<close>; a thread executes its next statement, or that statement (\<^verbatim>\<open>Popen\<close>, or
  reading a line) raises; a process writes a line or exits. \<open>None\<close>: not possible now.
\<close>

datatype action =
    Call_start "string option" "string option" options
  | Call_stop
  | Fg_step
  | Bg_step nat
  | Bg_fail nat py_error
  | Proc_write nat string
  | Proc_exit nat

definition bg_fail :: "run_pc \<Rightarrow> py_error \<Rightarrow> run_pc option" where
  "bg_fail pc e =
     (case pc of
        R59 cmd \<Rightarrow> Some (R72 e)
      | R62_next p \<Rightarrow> Some (R72 e)
      | _ \<Rightarrow> None)"

fun step :: "action \<Rightarrow> world \<Rightarrow> world option" where
  "step (Call_start target port_range opts) w =
     (if fg w = F_idle then
        (case start_scan target port_range opts w of
           Inl e \<Rightarrow> Some (w\<lparr>raised := raised w @ [e]\<rparr>)
         | Inr w' \<Rightarrow> Some w')
      else None)"
| "step Call_stop w = (if fg w = F_idle then Some (stop_scan w) else None)"
| "step Fg_step w = stop_scan_step (fg w) w"
| "step (Bg_step t) w =
     (if t < length (threads w) then
        (case run_scan (threads w ! t) w of
           None \<Rightarrow> None
         | Some (pc, w') \<Rightarrow> Some (w'\<lparr>threads := (threads w')[t := pc]\<rparr>))
      else None)"
| "step (Bg_fail t e) w =
     (if t < length (threads w) then
        (case bg_fail (threads w ! t) e of
           None \<Rightarrow> None
         | Some pc \<Rightarrow> Some (w\<lparr>threads := (threads w)[t := pc]\<rparr>))
      else None)"
| "step (Proc_write p l) w =
     (if proc_running w p
      then Some (w\<lparr>procs := (procs w)[p := (procs w ! p)\<lparr>stdout_lines := stdout_lines (procs w ! p) @ [l]\<rparr>]\<rparr>)
      else None)"
| "step (Proc_exit p) w = (if proc_running w p then Some (set_exited p w) else None)"

fun run :: "action list \<Rightarrow> world \<Rightarrow> world option" where
  "run [] w = Some w"
| "run (a # as) w = (case step a w of None \<Rightarrow> None | Some w' \<Rightarrow> run as w')"

section \<open>Notions used in the statements\<close>

text \<open>
  The text before the first occurrence of \<open>sep\<close> in a string (all of it when there is
  none), and the text after that occurrence.
\<close>

fun text_before :: "string \<Rightarrow> string \<Rightarrow> string" where
  "text_before sep [] = []"
| "text_before sep (c # cs) =
     (if take (length sep) (c # cs) = sep then [] else c # text_before sep cs)"

fun text_after :: "string \<Rightarrow> string \<Rightarrow> string" where
  "text_after sep [] = []"
| "text_after sep (c # cs) =
     (if take (length sep) (c # cs) = sep then drop (length sep) (c # cs) else text_after sep cs)"

text \<open>
  An option set whose \<^verbatim>\<open>scan_type\<close> is absent or falsy, or a string of the form
  \<^verbatim>\<open>"Label: flag"\<close>: one that contains the separator.
\<close>

definition scan_type_ok :: "options \<Rightarrow> bool" where
  "scan_type_ok opts =
     (case dict_get opts ''scan_type'' of
        PyStr s \<Rightarrow> s = [] \<or> str_contains '': '' s
      | v \<Rightarrow> \<not> truthy v)"

text \<open>Actions of a scan that nobody disturbs: thread \<open>t\<close> and the processes move.\<close>

fun scan_action :: "nat \<Rightarrow> action \<Rightarrow> bool" where
  "scan_action t (Bg_step u) = (u = t)"
| "scan_action t (Proc_write p l) = True"
| "scan_action t (Proc_exit p) = True"
| "scan_action t a = False"

section \<open>Invariants used in the proofs\<close>

text \<open>
  Control points of \<^verbatim>\<open>run_scan\<close> at which \<^verbatim>\<open>self.scan_process\<close> may hold a process: from
  after line 59 until line 90 has run.
\<close>

fun holds_process :: "run_pc \<Rightarrow> bool" where
  "holds_process (R58 cmd) = False"
| "holds_process (R59 cmd) = False"
| "holds_process R91 = False"
| "holds_process R_finished = False"
| "holds_process pc = True"

text \<open>
  Every live thread is the one \<^verbatim>\<open>self.scan_thread\<close> names, and a process handle is held
  only while that thread is between lines 59 and 90.
\<close>

definition controller_inv :: "world \<Rightarrow> bool" where
  "controller_inv w =
     ((\<forall>t. thread_alive w t \<longrightarrow> scan_thread w = Some t) \<and>
      (\<forall>p. scan_process w = Some p \<longrightarrow>
         (\<exists>t. scan_thread w = Some t \<and> t < length (threads w) \<and> holds_process (threads w ! t))))"

text \<open>
  What holds at each control point of an undisturbed scan of process \<open>p\<close> that started
  with the lines \<open>l0\<close> already in the log: the first \<open>k\<close> lines of the process are
  delivered; the process has exited and all its lines are delivered; the closing line is
  delivered too.
\<close>

definition start_line :: "string list \<Rightarrow> string" where
  "start_line cmd = ''Starting scan: '' @ str_join '' '' cmd"

definition delivered :: "nat \<Rightarrow> string list \<Rightarrow> string list \<Rightarrow> nat \<Rightarrow> world \<Rightarrow> bool" where
  "delivered p l0 cmd k w =
     (p < length (procs w) \<and> k \<le> length (stdout_lines (procs w ! p)) \<and>
      read_pos (procs w ! p) \<le> length (stdout_lines (procs w ! p)) \<and>
      log w = l0 @ [start_line cmd] @ map py_strip (take k (stdout_lines (procs w ! p))))"

definition drained :: "nat \<Rightarrow> string list \<Rightarrow> string list \<Rightarrow> world \<Rightarrow> bool" where
  "drained p l0 cmd w =
     (p < length (procs w) \<and> exited (procs w ! p) \<and>
      log w = l0 @ [start_line cmd] @ map py_strip (stdout_lines (procs w ! p)))"

definition completed :: "nat \<Rightarrow> string list \<Rightarrow> string list \<Rightarrow> world \<Rightarrow> bool" where
  "completed p l0 cmd w =
     (p < length (procs w) \<and> exited (procs w ! p) \<and>
      log w = l0 @ [start_line cmd] @ map py_strip (stdout_lines (procs w ! p))
              @ [''Scan completed successfully.''])"

fun scan_inv :: "nat \<Rightarrow> string list \<Rightarrow> string list \<Rightarrow> run_pc \<Rightarrow> world \<Rightarrow> bool" where
  "scan_inv p l0 cmd (R58 c) w = (c = cmd \<and> log w = l0 \<and> length (procs w) = p)"
| "scan_inv p l0 cmd (R59 c) w = (c = cmd \<and> log w = l0 @ [start_line cmd] \<and> length (procs w) = p)"
| "scan_inv p l0 cmd R62_iter w =
     (scan_process w = Some p \<and> delivered p l0 cmd (read_pos (procs w ! p)) w)"
| "scan_inv p l0 cmd (R62_next q) w =
     (q = p \<and> scan_process w = Some p \<and> delivered p l0 cmd (read_pos (procs w ! p)) w)"
| "scan_inv p l0 cmd (R63 q l) w =
     (q = p \<and> scan_process w = Some p \<and> read_pos (procs w ! p) \<noteq> 0 \<and>
      l = stdout_lines (procs w ! p) ! (read_pos (procs w ! p) - 1) \<and>
      delivered p l0 cmd (read_pos (procs w ! p) - 1) w)"
| "scan_inv p l0 cmd (R67 q l) w =
     (q = p \<and> scan_process w = Some p \<and> read_pos (procs w ! p) \<noteq> 0 \<and>
      l = stdout_lines (procs w ! p) ! (read_pos (procs w ! p) - 1) \<and>
      delivered p l0 cmd (read_pos (procs w ! p) - 1) w)"
| "scan_inv p l0 cmd R68 w = (scan_process w = Some p \<and> drained p l0 cmd w)"
| "scan_inv p l0 cmd (R68_wait q) w = (q = p \<and> drained p l0 cmd w)"
| "scan_inv p l0 cmd R69 w = drained p l0 cmd w"
| "scan_inv p l0 cmd R70 w = drained p l0 cmd w"
| "scan_inv p l0 cmd R90 w = completed p l0 cmd w"
| "scan_inv p l0 cmd R91 w = completed p l0 cmd w"
| "scan_inv p l0 cmd R_finished w = completed p l0 cmd w"
| "scan_inv p l0 cmd (R64 tp) w = False"
| "scan_inv p l0 cmd R65 w = False"
| "scan_inv p l0 cmd (R72 e) w = False"

definition scan_state :: "nat \<Rightarrow> nat \<Rightarrow> string list \<Rightarrow> string list \<Rightarrow> world \<Rightarrow> bool" where
  "scan_state t p l0 cmd w =
     (t < length (threads w) \<and> \<not> stop_event w \<and> scan_inv p l0 cmd (threads w ! t) w)"

section \<open>Strings\<close>

lemma str_contains_iff: "str_contains sep s \<longleftrightarrow> (\<exists>p q. s = p @ sep @ q)"
proof (induction s)
  case Nil
  show ?case by auto
next
  case (Cons c cs)
  show ?case
  proof
    assume "str_contains sep (c # cs)"
    then consider "take (length sep) (c # cs) = sep" | "str_contains sep cs" by auto
    then show "\<exists>p q. c # cs = p @ sep @ q"
    proof cases
      case 1
      then have "c # cs = [] @ sep @ drop (length sep) (c # cs)"
        by (metis append_Nil append_take_drop_id)
      then show ?thesis by blast
    next
      case 2
      with Cons obtain p q where "cs = p @ sep @ q" by blast
      then have "c # cs = (c # p) @ sep @ q" by simp
      then show ?thesis by blast
    qed
  next
    assume "\<exists>p q. c # cs = p @ sep @ q"
    then obtain p q where pq: "c # cs = p @ sep @ q" by blast
    show "str_contains sep (c # cs)"
    proof (cases p)
      case Nil
      with pq have "take (length sep) (c # cs) = sep" by simp
      then show ?thesis by simp
    next
      case (Cons d p')
      with pq have "cs = p' @ sep @ q" by simp
      with Cons.IH show ?thesis by auto
    qed
  qed
qed

lemma text_before_after:
  "str_contains sep s \<Longrightarrow> s = text_before sep s @ sep @ text_after sep s"
proof (induction s)
  case Nil
  then show ?case by simp
next
  case (Cons c cs)
  show ?case
  proof (cases "take (length sep) (c # cs) = sep")
    case True
    have "take (length sep) (c # cs) @ drop (length sep) (c # cs) = c # cs"
      by (rule append_take_drop_id)
    with True show ?thesis by simp
  next
    case False
    with Cons show ?thesis by simp
  qed
qed

lemma text_before_prefix: "\<exists>r. s = text_before sep s @ r"
  by (induction s) auto

lemma take_sep_extend:
  assumes "take (length sep) xs = sep"
  shows "take (length sep) (xs @ r) = sep"
proof -
  have "length sep \<le> length xs"
    using assms by (metis length_take min.cobounded1 min.commute)
  then show ?thesis using assms by simp
qed

lemma text_before_no_sep: "sep \<noteq> [] \<Longrightarrow> \<not> str_contains sep (text_before sep s)"
proof (induction s)
  case Nil
  then show ?case by simp
next
  case (Cons c cs)
  show ?case
  proof (cases "take (length sep) (c # cs) = sep")
    case True
    with Cons.prems show ?thesis by simp
  next
    case False
    obtain r where r: "cs = text_before sep cs @ r"
      using text_before_prefix by blast
    have "take (length sep) (c # text_before sep cs) \<noteq> sep"
    proof
      assume "take (length sep) (c # text_before sep cs) = sep"
      then have "take (length sep) ((c # text_before sep cs) @ r) = sep"
        by (rule take_sep_extend)
      with r False show False by simp
    qed
    with False Cons show ?thesis by simp
  qed
qed

lemma text_before_id: "\<not> str_contains sep s \<Longrightarrow> text_before sep s = s"
  by (induction s) auto

lemma split_from_eq:
  "sep \<noteq> [] \<Longrightarrow>
   split_from sep cur s =
     (cur @ text_before sep s) #
     (if str_contains sep s then split_from sep [] (text_after sep s) else [])"
proof (induction s arbitrary: cur)
  case Nil
  then show ?case by simp
next
  case (Cons c cs)
  then have n: "drop (length sep) (c # cs) = drop (length sep - 1) cs"
    by (cases sep) auto
  show ?case
  proof (cases "take (length sep) (c # cs) = sep")
    case True
    with Cons.prems n show ?thesis by simp
  next
    case False
    with Cons.prems Cons.IH [of "cur @ [c]"] show ?thesis by simp
  qed
qed

lemma str_split_index1:
  assumes "sep \<noteq> []" and "str_contains sep s"
  shows "1 < length (str_split s sep)"
    and "str_split s sep ! 1 = text_before sep (text_after sep s)"
proof -
  have a: "str_split s sep = text_before sep s # split_from sep [] (text_after sep s)"
    unfolding str_split_def using assms by (subst split_from_eq) auto
  have b: "split_from sep [] (text_after sep s) = text_before sep (text_after sep s) #
       (if str_contains sep (text_after sep s) then split_from sep [] (text_after sep (text_after sep s)) else [])"
    using assms(1) by (subst split_from_eq) auto
  show "1 < length (str_split s sep)" using a b by simp
  show "str_split s sep ! 1 = text_before sep (text_after sep s)" using a b by simp
qed

lemma str_split_no_sep:
  assumes "sep \<noteq> []" and "\<not> str_contains sep s"
  shows "str_split s sep = [s]"
  unfolding str_split_def using assms by (subst split_from_eq) (auto simp: text_before_id)


section \<open>The command builder: order of the arguments, and failures\<close>

lemma scan_type_flag_ok:
  assumes "scan_type_ok opts"
  shows "scan_type_flag opts =
           Inr (case dict_get opts ''scan_type'' of
                  PyStr s \<Rightarrow> if s \<noteq> [] then [text_before '': '' (text_after '': '' s)] else []
                | _ \<Rightarrow> [])"
proof (cases "dict_get opts ''scan_type''")
  case (PyStr s)
  show ?thesis
  proof (cases "s = []")
    case True
    with PyStr show ?thesis by (simp add: scan_type_flag_def)
  next
    case False
    with PyStr assms have c: "str_contains '': '' s" by (simp add: scan_type_ok_def)
    have "1 < length (str_split s '': '')"
      and "str_split s '': '' ! 1 = text_before '': '' (text_after '': '' s)"
      using str_split_index1 [OF _ c] by simp_all
    with PyStr False show ?thesis by (simp add: scan_type_flag_def Let_def)
  qed
qed (use assms in \<open>auto simp: scan_type_flag_def scan_type_ok_def\<close>)

lemma scan_type_flag_no_sep:
  assumes "opts ''scan_type'' = Some (PyStr s)" and "s \<noteq> []" and "\<not> str_contains '': '' s"
  shows "scan_type_flag opts = Inl (IndexError ''list index out of range'')"
proof -
  have "str_split s '': '' = [s]" using assms(3) by (simp add: str_split_no_sep)
  with assms(1,2) show ?thesis by (simp add: scan_type_flag_def dict_get_def)
qed

text \<open>
  Claim C3, amended. For every non-empty target, every port range and every option set
  whose \<^verbatim>\<open>scan_type\<close> is absent, falsy or a string containing \<^verbatim>\<open>": "\<close>, the builder returns
  \<^verbatim>\<open>"nmap"\<close>, then (for a truthy \<^verbatim>\<open>scan_type\<close>) the text between its first \<^verbatim>\<open>": "\<close> and the
  next one or the end, then \<^verbatim>\<open>-p<range>\<close> for a non-empty port range, then \<^verbatim>\<open>-sV\<close>, \<^verbatim>\<open>-O\<close>,
  \<^verbatim>\<open>-A\<close>, \<^verbatim>\<open>-v\<close>, \<^verbatim>\<open>-Pn\<close> for exactly the truthy options, in this order, then the target.
  The example of the specification is the second conjunct.
\<close>

theorem build_nmap_command_order:
  assumes "t \<noteq> []" and "scan_type_ok opts"
  shows "build_nmap_command (Some t) port_range opts =
           Inr ([''nmap'']
                @ (case dict_get opts ''scan_type'' of
                     PyStr s \<Rightarrow> if s \<noteq> [] then [text_before '': '' (text_after '': '' s)] else []
                   | _ \<Rightarrow> [])
                @ (case port_range of Some p \<Rightarrow> if p \<noteq> [] then [''-p'' @ p] else [] | None \<Rightarrow> [])
                @ (if truthy (dict_get opts ''service_scan'') then [''-sV''] else [])
                @ (if truthy (dict_get opts ''os_detection'') then [''-O''] else [])
                @ (if truthy (dict_get opts ''aggressive_scan'') then [''-A''] else [])
                @ (if truthy (dict_get opts ''verbose'') then [''-v''] else [])
                @ (if truthy (dict_get opts ''no_ping'') then [''-Pn''] else [])
                @ [t])
         \<and> build_nmap_command (Some ''10.0.0.5'') (Some ''20-80'')
              [''scan_type'' \<mapsto> PyStr ''TCP SYN: -sS'', ''service_scan'' \<mapsto> PyBool True]
            = Inr [''nmap'', ''-sS'', ''-p20-80'', ''-sV'', ''10.0.0.5'']"
proof
  show "build_nmap_command (Some ''10.0.0.5'') (Some ''20-80'')
          [''scan_type'' \<mapsto> PyStr ''TCP SYN: -sS'', ''service_scan'' \<mapsto> PyBool True]
        = Inr [''nmap'', ''-sS'', ''-p20-80'', ''-sV'', ''10.0.0.5'']"
    by (simp add: build_nmap_command_def scan_type_flag_def dict_get_def str_split_def)
next
  show "build_nmap_command (Some t) port_range opts =
           Inr ([''nmap'']
                @ (case dict_get opts ''scan_type'' of
                     PyStr s \<Rightarrow> if s \<noteq> [] then [text_before '': '' (text_after '': '' s)] else []
                   | _ \<Rightarrow> [])
                @ (case port_range of Some p \<Rightarrow> if p \<noteq> [] then [''-p'' @ p] else [] | None \<Rightarrow> [])
                @ (if truthy (dict_get opts ''service_scan'') then [''-sV''] else [])
                @ (if truthy (dict_get opts ''os_detection'') then [''-O''] else [])
                @ (if truthy (dict_get opts ''aggressive_scan'') then [''-A''] else [])
                @ (if truthy (dict_get opts ''verbose'') then [''-v''] else [])
                @ (if truthy (dict_get opts ''no_ping'') then [''-Pn''] else [])
                @ [t])"
    using assms(1)
    by (simp add: build_nmap_command_def scan_type_flag_ok [OF assms(2)] Let_def
             split: option.split)
qed

theorem build_nmap_command_order_witness:
  "''scanme.example'' \<noteq> [] \<and>
   scan_type_ok [''scan_type'' \<mapsto> PyStr ''UDP: -sU: x'', ''verbose'' \<mapsto> PyInt 1, ''no_ping'' \<mapsto> PyBool False] \<and>
   build_nmap_command (Some ''scanme.example'') (Some ''53'')
     [''scan_type'' \<mapsto> PyStr ''UDP: -sU: x'', ''verbose'' \<mapsto> PyInt 1, ''no_ping'' \<mapsto> PyBool False]
   = Inr [''nmap'', ''-sU'', ''-p53'', ''-v'', ''scanme.example'']"
  using build_nmap_command_order [of "''scanme.example''"
     "[''scan_type'' \<mapsto> PyStr ''UDP: -sU: x'', ''verbose'' \<mapsto> PyInt 1, ''no_ping'' \<mapsto> PyBool False]"
     "Some ''53''"]
  by (simp add: scan_type_ok_def dict_get_def)

text \<open>
  Claim C3 as written ranges over every option set. With a \<^verbatim>\<open>scan_type\<close> that has no
  separator and a non-empty target the builder returns no command.
\<close>

theorem build_nmap_command_order_counterexample:
  "''10.0.0.5'' \<noteq> [] \<and>
   build_nmap_command (Some ''10.0.0.5'') (Some ''20-80'') [''scan_type'' \<mapsto> PyStr ''TCP SYN'']
     = Inl (IndexError ''list index out of range'')"
  by (simp add: build_nmap_command_def scan_type_flag_def dict_get_def str_split_def)

text \<open>
  Claim C4, amended. With an empty or null target the builder never returns a command;
  it raises \<^verbatim>\<open>ValueError("Target cannot be empty.")\<close> whenever \<^verbatim>\<open>scan_type\<close> is absent, falsy
  or a string containing \<^verbatim>\<open>": "\<close>.
\<close>

theorem build_nmap_command_empty_target:
  assumes "target = None \<or> target = Some []"
  shows "isl (build_nmap_command target port_range opts) \<and>
         (scan_type_ok opts \<longrightarrow>
            build_nmap_command target port_range opts = Inl (ValueError ''Target cannot be empty.''))"
proof
  show "isl (build_nmap_command target port_range opts)"
    using assms by (auto simp: build_nmap_command_def Let_def split: sum.split)
  show "scan_type_ok opts \<longrightarrow>
            build_nmap_command target port_range opts = Inl (ValueError ''Target cannot be empty.'')"
    using assms by (auto simp: build_nmap_command_def scan_type_flag_ok Let_def)
qed

theorem build_nmap_command_empty_target_witness:
  "(Some [] = None \<or> Some [] = Some ([] :: string)) \<and>
   scan_type_ok [''scan_type'' \<mapsto> PyStr ''TCP SYN: -sS''] \<and>
   build_nmap_command (Some []) (Some ''20-80'') [''scan_type'' \<mapsto> PyStr ''TCP SYN: -sS'']
     = Inl (ValueError ''Target cannot be empty.'')"
  using build_nmap_command_empty_target [of "Some []" "Some ''20-80''"
     "[''scan_type'' \<mapsto> PyStr ''TCP SYN: -sS'']"]
  by (simp add: scan_type_ok_def dict_get_def)

text \<open>
  Claim C4 as written holds regardless of the other inputs. The \<^verbatim>\<open>scan_type\<close> is read
  before the target is tested, so a malformed one decides the exception.
\<close>

theorem build_nmap_command_empty_target_counterexample:
  "build_nmap_command (Some []) None [''scan_type'' \<mapsto> PyStr ''TCP SYN'']
     \<noteq> Inl (ValueError ''Target cannot be empty.'')"
  by (simp add: build_nmap_command_def scan_type_flag_def dict_get_def str_split_def)

text \<open>
  Claim C10. For every target and port range, a truthy \<^verbatim>\<open>scan_type\<close> string without the
  separator \<^verbatim>\<open>": "\<close> makes the builder raise IndexError: no command and no ValueError.
\<close>

theorem build_nmap_command_index_error:
  assumes "opts ''scan_type'' = Some (PyStr s)" and "s \<noteq> []" and "\<not> str_contains '': '' s"
  shows "build_nmap_command target port_range opts = Inl (IndexError ''list index out of range'')"
  using scan_type_flag_no_sep [of opts s] assms by (simp add: build_nmap_command_def)

theorem build_nmap_command_index_error_witness:
  "[''scan_type'' \<mapsto> PyStr ''TCP SYN''] ''scan_type'' = Some (PyStr ''TCP SYN'') \<and>
   ''TCP SYN'' \<noteq> [] \<and> \<not> str_contains '': '' ''TCP SYN'' \<and>
   build_nmap_command (Some ''10.0.0.5'') None [''scan_type'' \<mapsto> PyStr ''TCP SYN'']
     = Inl (IndexError ''list index out of range'')"
  using build_nmap_command_index_error [of "[''scan_type'' \<mapsto> PyStr ''TCP SYN'']" "''TCP SYN''"
     "Some ''10.0.0.5''" None]
  by simp

section \<open>The controller: single calls\<close>

lemmas world_defs = start_scan_def stop_scan_def session_active_def thread_alive_def
  proc_running_def emit_def set_exited_def bg_fail_def init_world_def

lemmas eval_defs = world_defs build_nmap_command_def scan_type_flag_def dict_get_def
  py_strip_def py_rstrip_def py_isspace_def

text \<open>
  Claim C6. When no process is active, or the process has already exited, \<^verbatim>\<open>stop_scan\<close>
  emits exactly \<^verbatim>\<open>"No active scan to stop."\<close> and changes nothing else: the process handle,
  the thread handle and the stop event stay as they were.
\<close>

theorem stop_scan_no_active:
  assumes "fg w = F_idle"
    and "scan_process w = None \<or> (\<exists>p. scan_process w = Some p \<and> \<not> proc_running w p)"
  shows "step Call_stop w = Some (w\<lparr>log := log w @ [''No active scan to stop.'']\<rparr>)"
  using assms by (auto simp: stop_scan_def emit_def)

theorem stop_scan_no_active_witness:
  "run [Call_start (Some ''10.0.0.5'') None Map.empty, Bg_step 0, Bg_step 0, Proc_exit 0]
     init_world = Some \<lparr>scan_thread = Some 0, scan_process = Some 0, stop_event = False,
       log = [''Starting scan: nmap 10.0.0.5''],
       threads = [R62_iter],
       procs = [\<lparr>argv = [''nmap'', ''10.0.0.5''], stdout_lines = [], read_pos = 0,
                 exited = True\<rparr>],
       fg = F_idle, raised = []\<rparr> \<and>
   fg \<lparr>scan_thread = Some 0, scan_process = Some 0, stop_event = False,
       log = [''Starting scan: nmap 10.0.0.5''],
       threads = [R62_iter],
       procs = [\<lparr>argv = [''nmap'', ''10.0.0.5''], stdout_lines = [], read_pos = 0,
                 exited = True\<rparr>],
       fg = F_idle, raised = []\<rparr> = F_idle \<and> scan_process \<lparr>scan_thread = Some 0, scan_process = Some 0, stop_event = False,
       log = [''Starting scan: nmap 10.0.0.5''],
       threads = [R62_iter],
       procs = [\<lparr>argv = [''nmap'', ''10.0.0.5''], stdout_lines = [], read_pos = 0,
                 exited = True\<rparr>],
       fg = F_idle, raised = []\<rparr> = Some 0 \<and> \<not> proc_running \<lparr>scan_thread = Some 0, scan_process = Some 0, stop_event = False,
       log = [''Starting scan: nmap 10.0.0.5''],
       threads = [R62_iter],
       procs = [\<lparr>argv = [''nmap'', ''10.0.0.5''], stdout_lines = [], read_pos = 0,
                 exited = True\<rparr>],
       fg = F_idle, raised = []\<rparr> 0 \<and>
   step Call_stop \<lparr>scan_thread = Some 0, scan_process = Some 0, stop_event = False,
       log = [''Starting scan: nmap 10.0.0.5''],
       threads = [R62_iter],
       procs = [\<lparr>argv = [''nmap'', ''10.0.0.5''], stdout_lines = [], read_pos = 0,
                 exited = True\<rparr>],
       fg = F_idle, raised = []\<rparr> = Some (\<lparr>scan_thread = Some 0, scan_process = Some 0, stop_event = False,
       log = [''Starting scan: nmap 10.0.0.5''],
       threads = [R62_iter],
       procs = [\<lparr>argv = [''nmap'', ''10.0.0.5''], stdout_lines = [], read_pos = 0,
                 exited = True\<rparr>],
       fg = F_idle, raised = []\<rparr>\<lparr>log := [''Starting scan: nmap 10.0.0.5'', ''No active scan to stop.'']\<rparr>)"
  using stop_scan_no_active [of "\<lparr>scan_thread = Some 0, scan_process = Some 0, stop_event = False,
       log = [''Starting scan: nmap 10.0.0.5''],
       threads = [R62_iter],
       procs = [\<lparr>argv = [''nmap'', ''10.0.0.5''], stdout_lines = [], read_pos = 0,
                 exited = True\<rparr>],
       fg = F_idle, raised = []\<rparr>"]
  by (simp add: eval_defs)

text \<open>
  Claim C2, amended. With no session active, a failure of the command builder leaves
  \<^verbatim>\<open>start_scan\<close> as the builder's exception, raised to the caller; no line is emitted and the
  controller is unchanged.
\<close>

theorem start_scan_builder_failure:
  assumes "fg w = F_idle" and "\<not> session_active w"
    and "build_nmap_command target port_range opts = Inl e"
  shows "start_scan target port_range opts w = Inl e \<and>
         step (Call_start target port_range opts) w = Some (w\<lparr>raised := raised w @ [e]\<rparr>)"
  using assms by (simp add: start_scan_def)

theorem start_scan_builder_failure_witness:
  "fg init_world = F_idle \<and> \<not> session_active init_world \<and>
   build_nmap_command (Some []) (Some ''20-80'') [''verbose'' \<mapsto> PyBool True]
     = Inl (ValueError ''Target cannot be empty.'') \<and>
   step (Call_start (Some []) (Some ''20-80'') [''verbose'' \<mapsto> PyBool True]) init_world
     = Some (init_world\<lparr>raised := [ValueError ''Target cannot be empty.'']\<rparr>)"
  using start_scan_builder_failure [of init_world "Some []" "Some ''20-80''"
    "[''verbose'' \<mapsto> PyBool True]" "ValueError ''Target cannot be empty.''"]
  by (simp add: eval_defs)

text \<open>
  Claim C2 as written has the failure emitted as an \<^verbatim>\<open>"Error: ..."\<close> line and nothing
  raised. With an empty target on a fresh controller the \<^verbatim>\<open>ValueError\<close> reaches the caller
  and the log stays empty.
\<close>

theorem start_scan_builder_failure_counterexample:
  "step (Call_start (Some []) (Some ''20-80'') Map.empty) init_world
     = Some (init_world\<lparr>raised := [ValueError ''Target cannot be empty.'']\<rparr>) \<and>
   log (init_world\<lparr>raised := [ValueError ''Target cannot be empty.'']\<rparr>) = []"
  by (simp add: world_defs build_nmap_command_def scan_type_flag_def dict_get_def)

text \<open>
  Claim C9. When \<^verbatim>\<open>Popen\<close> (line 59) or reading the output (line 62) raises \<open>e\<close>, the
  following statements of the thread emit \<^verbatim>\<open>"Error: " + str(e)\<close>, clear the process handle
  and the stop event, and the thread ends; nothing reaches the caller (\<open>raised\<close> is
  unchanged).
\<close>

theorem run_scan_failure_handled:
  assumes "t < length (threads w)"
    and "threads w ! t = R59 cmd \<or> threads w ! t = R62_next p"
  shows "run [Bg_fail t e, Bg_step t, Bg_step t, Bg_step t] w =
           Some (w\<lparr>log := log w @ [''Error: '' @ str_of e],
                   scan_process := None,
                   stop_event := False,
                   threads := (threads w)[t := R_finished]\<rparr>)"
  using assms by (auto simp: bg_fail_def emit_def)

theorem run_scan_failure_handled_witness:
  "run [Call_start (Some ''10.0.0.5'') None Map.empty, Bg_step 0] init_world = Some \<lparr>scan_thread = Some 0, scan_process = None, stop_event = False,
       log = [''Starting scan: nmap 10.0.0.5''],
       threads = [R59 [''nmap'', ''10.0.0.5'']],
       procs = [], fg = F_idle, raised = []\<rparr> \<and>
   threads \<lparr>scan_thread = Some 0, scan_process = None, stop_event = False,
       log = [''Starting scan: nmap 10.0.0.5''],
       threads = [R59 [''nmap'', ''10.0.0.5'']],
       procs = [], fg = F_idle, raised = []\<rparr> ! 0 = R59 [''nmap'', ''10.0.0.5''] \<and>
   run [Bg_fail 0 (OtherError ''No such file or directory''), Bg_step 0, Bg_step 0, Bg_step 0] \<lparr>scan_thread = Some 0, scan_process = None, stop_event = False,
       log = [''Starting scan: nmap 10.0.0.5''],
       threads = [R59 [''nmap'', ''10.0.0.5'']],
       procs = [], fg = F_idle, raised = []\<rparr> =
     Some (\<lparr>scan_thread = Some 0, scan_process = None, stop_event = False,
       log = [''Starting scan: nmap 10.0.0.5''],
       threads = [R59 [''nmap'', ''10.0.0.5'']],
       procs = [], fg = F_idle, raised = []\<rparr>\<lparr>log := [''Starting scan: nmap 10.0.0.5'', ''Error: No such file or directory''],
               threads := [R_finished]\<rparr>)"
  using run_scan_failure_handled [of 0 "\<lparr>scan_thread = Some 0, scan_process = None, stop_event = False,
       log = [''Starting scan: nmap 10.0.0.5''],
       threads = [R59 [''nmap'', ''10.0.0.5'']],
       procs = [], fg = F_idle, raised = []\<rparr>" "[''nmap'', ''10.0.0.5'']" 0
    "OtherError ''No such file or directory''"]
  by (simp add: eval_defs)


section \<open>Stopping a scan in mid-stream\<close>

text \<open>
  Claim C1 fails on the code. A scan has delivered one line and waits for the next;
  \<^verbatim>\<open>stop_scan\<close> is called and the process exits on \<^verbatim>\<open>terminate()\<close>. Lines 85-86, reached
  from \<^verbatim>\<open>stop_scan\<close>, clear the handle and the stop event before the loop looks at them.
  In the first schedule \<^verbatim>\<open>stop_scan\<close> returns before the loop sees the end of the output:
  line 68 finds \<^verbatim>\<open>self.scan_process\<close> to be \<^verbatim>\<open>None\<close> and the session ends with an error
  line. In the second the loop passes line 68 while \<^verbatim>\<open>stop_scan\<close> waits, and tests the
  event at line 69 after it was cleared: the session ends with
  \<^verbatim>\<open>"Scan completed successfully."\<close>. Neither log has \<^verbatim>\<open>"Scan stopped by user."\<close>.
\<close>

theorem stop_scan_mid_stream:
  "map_option log
     (run [Call_start (Some ''10.0.0.5'') None Map.empty,
           Bg_step 0, Bg_step 0, Bg_step 0,
           Proc_write 0 ''PORT STATE'',
           Bg_step 0, Bg_step 0, Bg_step 0,
           Call_stop, Fg_step, Fg_step, Fg_step, Fg_step,
           Proc_exit 0,
           Fg_step, Fg_step, Fg_step,
           Bg_step 0, Bg_step 0, Bg_step 0, Bg_step 0, Bg_step 0] init_world)
   = Some [''Starting scan: nmap 10.0.0.5'', ''PORT STATE'',
           ''Error: '' @ no_attribute ''NoneType'' ''wait''] \<and>
   map_option log
     (run [Call_start (Some ''10.0.0.5'') None Map.empty,
           Bg_step 0, Bg_step 0, Bg_step 0,
           Proc_write 0 ''PORT STATE'',
           Bg_step 0, Bg_step 0, Bg_step 0,
           Call_stop, Fg_step, Fg_step, Fg_step, Fg_step,
           Proc_exit 0,
           Bg_step 0, Bg_step 0, Bg_step 0,
           Fg_step, Fg_step, Fg_step,
           Bg_step 0, Bg_step 0, Bg_step 0, Bg_step 0] init_world)
   = Some [''Starting scan: nmap 10.0.0.5'', ''PORT STATE'',
           ''Scan completed successfully.'']"
  by (simp add: eval_defs)


section \<open>One session at a time\<close>

lemma terminate_scan_process_frame:
  assumes "terminate_scan_process pc w = (r, w')"
  shows "threads w' = threads w \<and> scan_thread w' = scan_thread w \<and>
         (scan_process w' = scan_process w \<or> scan_process w' = None) \<and>
         log w' = log w \<and> fg w' = fg w \<and> raised w' = raised w \<and>
         length (procs w') = length (procs w)"
  using assms by (cases pc) (auto simp: set_exited_def split: option.splits if_splits)

lemma controller_inv_init: "controller_inv init_world"
  by (simp add: controller_inv_def init_world_def thread_alive_def)

lemma holds_process_alive: "holds_process pc \<Longrightarrow> pc \<noteq> R_finished"
  by (cases pc) auto

lemma controller_inv_idle:
  assumes "controller_inv w" and "\<not> session_active w"
  shows "scan_process w = None" and "\<not> thread_alive w t"
proof -
  show "\<not> thread_alive w t"
    using assms by (auto simp: controller_inv_def session_active_def)
  show "scan_process w = None"
  proof (rule ccontr)
    assume "scan_process w \<noteq> None"
    then obtain p where "scan_process w = Some p" by auto
    with assms(1) obtain t' where "scan_thread w = Some t'" "t' < length (threads w)"
      "holds_process (threads w ! t')"
      by (auto simp: controller_inv_def)
    then have "session_active w"
      by (simp add: session_active_def thread_alive_def holds_process_alive)
    with assms(2) show False by simp
  qed
qed

lemma controller_inv_start:
  assumes "controller_inv w" and "start_scan target port_range opts w = Inr w'"
  shows "controller_inv w'"
proof (cases "session_active w")
  case True
  with assms show ?thesis
    by (auto simp: start_scan_def emit_def controller_inv_def thread_alive_def)
next
  case False
  note idle = controller_inv_idle [OF assms(1) False]
  from False assms(2) obtain cmd where
    w': "w' = w\<lparr>stop_event := False, scan_thread := Some (length (threads w)),
                 threads := threads w @ [R58 cmd]\<rparr>"
    by (auto simp: start_scan_def split: sum.splits)
  have "\<And>t. thread_alive w' t \<Longrightarrow> t = length (threads w)"
  proof -
    fix t assume a: "thread_alive w' t"
    show "t = length (threads w)"
    proof (rule ccontr)
      assume "t \<noteq> length (threads w)"
      with a w' have "thread_alive w t"
        by (auto simp: thread_alive_def nth_append)
      with idle(2) show False by simp
    qed
  qed
  with idle(1) w' show ?thesis
    by (auto simp: controller_inv_def)
qed

lemma run_scan_frame:
  assumes "run_scan pc0 w = Some (pc, w')"
  shows "threads w' = threads w \<and> scan_thread w' = scan_thread w \<and> fg w' = fg w \<and>
         raised w' = raised w"
proof (cases pc0)
  case (R64 tp)
  obtain r w1 where t: "terminate_scan_process tp w = (r, w1)" by force
  with R64 assms have "w' = w1" by (cases r) auto
  with terminate_scan_process_frame [OF t] show ?thesis by simp
qed (use assms in \<open>auto simp: emit_def Let_def split: option.splits if_splits\<close>)

lemma run_scan_holds:
  assumes "run_scan pc0 w = Some (pc, w')"
    and "scan_process w \<noteq> None \<longrightarrow> holds_process pc0"
    and "scan_process w' \<noteq> None"
  shows "holds_process pc"
proof (cases pc0)
  case (R64 tp)
  obtain r w1 where t: "terminate_scan_process tp w = (r, w1)" by force
  with R64 assms(1) show ?thesis by (cases r) auto
qed (use assms in \<open>auto simp: emit_def Let_def split: option.splits if_splits\<close>)

lemma controller_inv_alive:
  "controller_inv w \<Longrightarrow> thread_alive w t \<Longrightarrow> scan_thread w = Some t"
  by (simp add: controller_inv_def)

lemma controller_inv_update:
  assumes "controller_inv w" and "t < length (threads w)" and "threads w ! t \<noteq> R_finished"
    and th: "threads w' = (threads w)[t := pc]" and sc: "scan_thread w' = scan_thread w"
    and new: "scan_process w' \<noteq> None \<longrightarrow> holds_process pc"
  shows "controller_inv w'"
proof -
  have st: "scan_thread w = Some t"
    using assms(1-3) by (simp add: controller_inv_alive thread_alive_def)
  have one: "scan_thread w' = Some u" if "thread_alive w' u" for u
  proof (cases "u = t")
    case True
    with st sc show ?thesis by simp
  next
    case False
    with that th have "thread_alive w u" by (simp add: thread_alive_def)
    then have "scan_thread w = Some u" using assms(1) by (rule controller_inv_alive [rotated])
    with st False show ?thesis by simp
  qed
  have two: "\<exists>u. scan_thread w' = Some u \<and> u < length (threads w') \<and> holds_process (threads w' ! u)"
    if "scan_process w' = Some p" for p
  proof -
    from that new have "holds_process pc" by simp
    with st sc th assms(2) show ?thesis by simp
  qed
  show ?thesis
    unfolding controller_inv_def using one two by blast
qed

lemma controller_inv_bg:
  assumes "controller_inv w" and "t < length (threads w)"
    and "run_scan (threads w ! t) w = Some (pc, w')"
  shows "controller_inv (w'\<lparr>threads := (threads w')[t := pc]\<rparr>)"
proof -
  note fr = run_scan_frame [OF assms(3)]
  have alive: "threads w ! t \<noteq> R_finished" using assms(3) by auto
  with assms(1,2) have st: "scan_thread w = Some t"
    by (simp add: controller_inv_alive thread_alive_def)
  have old: "scan_process w \<noteq> None \<longrightarrow> holds_process (threads w ! t)"
    using assms(1) st by (auto simp: controller_inv_def)
  have new: "scan_process w' \<noteq> None \<longrightarrow> holds_process pc"
    using run_scan_holds [OF assms(3) old] by simp
  show ?thesis
    by (rule controller_inv_update [OF assms(1,2) alive]) (use fr new in simp_all)
qed

lemma controller_inv_fg:
  assumes "controller_inv w" and "stop_scan_step (fg w) w = Some w'"
  shows "controller_inv w'"
proof (cases "fg w")
  case F_idle
  with assms show ?thesis by simp
next
  case F114
  with assms show ?thesis by (auto simp: controller_inv_def thread_alive_def)
next
  case (F115 tp)
  obtain r w1 where t: "terminate_scan_process tp w = (r, w1)" by force
  note fr = terminate_scan_process_frame [OF t]
  have "controller_inv w1"
    using assms(1) fr by (auto simp: controller_inv_def thread_alive_def)
  moreover have "threads w' = threads w1 \<and> scan_thread w' = scan_thread w1 \<and>
                 scan_process w' = scan_process w1"
    using assms(2) F115 t by (cases r) auto
  ultimately show ?thesis by (simp add: controller_inv_def thread_alive_def)
qed

lemma controller_inv_step:
  assumes "controller_inv w" and "step a w = Some w'"
  shows "controller_inv w'"
proof (cases a)
  case (Call_start target port_range opts)
  show ?thesis
  proof (cases "start_scan target port_range opts w")
    case (Inl e)
    with assms Call_start show ?thesis
      by (auto simp: controller_inv_def thread_alive_def split: if_splits)
  next
    case (Inr w1)
    with assms Call_start controller_inv_start [OF assms(1) Inr] show ?thesis
      by (auto split: if_splits)
  qed
next
  case Call_stop
  with assms show ?thesis
    by (auto simp: stop_scan_def emit_def controller_inv_def thread_alive_def split: if_splits)
next
  case Fg_step
  with assms controller_inv_fg show ?thesis by simp
next
  case (Bg_step t)
  with assms controller_inv_bg [OF assms(1)] show ?thesis
    by (auto split: if_splits option.splits)
next
  case (Bg_fail t e)
  with assms obtain pc where pc: "t < length (threads w)" "bg_fail (threads w ! t) e = Some pc"
    "w' = w\<lparr>threads := (threads w)[t := pc]\<rparr>"
    by (auto split: if_splits option.splits)
  then have "pc = R72 e" and alive: "threads w ! t \<noteq> R_finished"
    by (auto simp: bg_fail_def split: run_pc.splits)
  have "controller_inv (w\<lparr>threads := (threads w)[t := R72 e]\<rparr>)"
    by (rule controller_inv_update [OF assms(1) pc(1) alive, of _ "R72 e"]) simp_all
  with pc(3) \<open>pc = R72 e\<close> show ?thesis by simp
next
  case (Proc_write p l)
  with assms show ?thesis
    by (auto simp: controller_inv_def thread_alive_def split: if_splits)
next
  case (Proc_exit p)
  with assms show ?thesis
    by (auto simp: controller_inv_def thread_alive_def set_exited_def split: if_splits)
qed

lemma controller_inv_run:
  "controller_inv w \<Longrightarrow> run as w = Some w' \<Longrightarrow> controller_inv w'"
proof (induction as arbitrary: w)
  case Nil
  then show ?case by simp
next
  case (Cons a as)
  then show ?case
    by (auto split: option.splits dest: controller_inv_step)
qed

lemma reachable_inv: "run as init_world = Some w \<Longrightarrow> controller_inv w"
  using controller_inv_init controller_inv_run by blast

text \<open>
  Claim C5. In every state the controller can reach, at most one thread is alive; and
  \<^verbatim>\<open>start_scan\<close> called while the thread of \<^verbatim>\<open>self.scan_thread\<close> is alive emits exactly
  \<^verbatim>\<open>"A scan is already in progress. Please wait."\<close> and changes nothing else: no thread and
  no process is added.
\<close>

theorem one_session_at_a_time:
  assumes "run as init_world = Some w"
  shows "(\<forall>t u. thread_alive w t \<and> thread_alive w u \<longrightarrow> t = u) \<and>
         (fg w = F_idle \<and> session_active w \<longrightarrow>
            step (Call_start target port_range opts) w =
              Some (w\<lparr>log := log w @ [''A scan is already in progress. Please wait.'']\<rparr>))"
proof
  have inv: "controller_inv w" using assms by (rule reachable_inv)
  show "\<forall>t u. thread_alive w t \<and> thread_alive w u \<longrightarrow> t = u"
  proof (intro allI impI)
    fix t u assume "thread_alive w t \<and> thread_alive w u"
    then have "scan_thread w = Some t" and "scan_thread w = Some u"
      using inv by (simp_all add: controller_inv_alive)
    then show "t = u" by simp
  qed
  show "fg w = F_idle \<and> session_active w \<longrightarrow>
          step (Call_start target port_range opts) w =
            Some (w\<lparr>log := log w @ [''A scan is already in progress. Please wait.'']\<rparr>)"
    by (simp add: start_scan_def emit_def)
qed

theorem one_session_at_a_time_witness:
  "run [Call_start (Some ''10.0.0.5'') None Map.empty, Bg_step 0, Bg_step 0] init_world =
     Some \<lparr>scan_thread = Some 0, scan_process = Some 0, stop_event = False,
            log = [''Starting scan: nmap 10.0.0.5''],
            threads = [R62_iter],
            procs = [\<lparr>argv = [''nmap'', ''10.0.0.5''], stdout_lines = [], read_pos = 0,
                      exited = False\<rparr>],
            fg = F_idle, raised = []\<rparr> \<and>
   step (Call_start (Some ''10.0.0.9'') (Some ''22'') Map.empty)
     \<lparr>scan_thread = Some 0, scan_process = Some 0, stop_event = False,
       log = [''Starting scan: nmap 10.0.0.5''],
       threads = [R62_iter],
       procs = [\<lparr>argv = [''nmap'', ''10.0.0.5''], stdout_lines = [], read_pos = 0,
                 exited = False\<rparr>],
       fg = F_idle, raised = []\<rparr> =
     Some \<lparr>scan_thread = Some 0, scan_process = Some 0, stop_event = False,
            log = [''Starting scan: nmap 10.0.0.5'',
                   ''A scan is already in progress. Please wait.''],
            threads = [R62_iter],
            procs = [\<lparr>argv = [''nmap'', ''10.0.0.5''], stdout_lines = [], read_pos = 0,
                      exited = False\<rparr>],
            fg = F_idle, raised = []\<rparr>"
  using one_session_at_a_time
    [of "[Call_start (Some ''10.0.0.5'') None Map.empty, Bg_step 0, Bg_step 0]"
        "\<lparr>scan_thread = Some 0, scan_process = Some 0, stop_event = False,
          log = [''Starting scan: nmap 10.0.0.5''],
          threads = [R62_iter],
          procs = [\<lparr>argv = [''nmap'', ''10.0.0.5''], stdout_lines = [], read_pos = 0,
                    exited = False\<rparr>],
          fg = F_idle, raised = []\<rparr>"
        "Some ''10.0.0.9''" "Some ''22''" Map.empty]
  by (simp add: world_defs build_nmap_command_def scan_type_flag_def dict_get_def)




section \<open>A scan that completes normally\<close>

lemma scan_state_bg:
  assumes "scan_state t p l0 cmd w" and "step (Bg_step t) w = Some w'"
  shows "scan_state t p l0 cmd w'"
proof -
  have t: "t < length (threads w)" and ns: "\<not> stop_event w"
    and inv: "scan_inv p l0 cmd (threads w ! t) w"
    using assms(1) by (simp_all add: scan_state_def)
  from assms(2) t obtain pc w1 where
    r: "run_scan (threads w ! t) w = Some (pc, w1)" and
    w': "w' = w1\<lparr>threads := (threads w1)[t := pc]\<rparr>"
    by (auto split: option.splits)
  show ?thesis
  proof (cases "threads w ! t")
    case (R67 q l)
    define ls where "ls = stdout_lines (procs w ! p)"
    define k where "k = read_pos (procs w ! p) - 1"
    from R67 inv have q: "q = p" and l: "l = ls ! k" and pos: "read_pos (procs w ! p) = Suc k"
      and d: "delivered p l0 cmd k w"
      by (simp_all add: ls_def k_def)
    from d have "Suc k \<le> length ls" using pos by (simp add: delivered_def ls_def)
    then have "take (Suc k) ls = take k ls @ [ls ! k]"
      by (simp add: take_Suc_conv_app_nth)
    with d l pos have "delivered p l0 cmd (read_pos (procs w ! p)) (emit (py_strip l) w)"
      by (simp add: delivered_def emit_def ls_def)
    moreover from R67 r w' have "w' = (emit (py_strip l) w)\<lparr>threads := (threads w)[t := R62_next q]\<rparr>"
      by (auto simp: emit_def)
    moreover from R67 inv have "scan_process w = Some p" by simp
    ultimately show ?thesis
      using t ns q by (simp add: scan_state_def emit_def delivered_def)
  qed (use inv r w' t ns in \<open>auto simp: scan_state_def emit_def start_line_def delivered_def
         drained_def completed_def proc_running_def Let_def nth_append split: if_splits\<close>)
qed

lemma delivered_write:
  assumes "delivered p l0 cmd k w"
  shows "delivered p l0 cmd k
           (w\<lparr>procs := (procs w)[q := (procs w ! q)\<lparr>stdout_lines := stdout_lines (procs w ! q) @ [l]\<rparr>]\<rparr>)"
proof (cases "q = p")
  case True
  with assms show ?thesis by (simp add: delivered_def)
next
  case False
  with assms show ?thesis by (simp add: delivered_def)
qed

lemma drained_write:
  assumes "drained p l0 cmd w" and "proc_running w q"
  shows "drained p l0 cmd
           (w\<lparr>procs := (procs w)[q := (procs w ! q)\<lparr>stdout_lines := stdout_lines (procs w ! q) @ [l]\<rparr>]\<rparr>)"
proof -
  from assms have "q \<noteq> p" by (auto simp: drained_def proc_running_def)
  with assms(1) show ?thesis by (simp add: drained_def)
qed

lemma completed_write:
  assumes "completed p l0 cmd w" and "proc_running w q"
  shows "completed p l0 cmd
           (w\<lparr>procs := (procs w)[q := (procs w ! q)\<lparr>stdout_lines := stdout_lines (procs w ! q) @ [l]\<rparr>]\<rparr>)"
proof -
  from assms have "q \<noteq> p" by (auto simp: completed_def proc_running_def)
  with assms(1) show ?thesis by (simp add: completed_def)
qed

lemma scan_inv_write:
  assumes "scan_inv p l0 cmd pc w" and "proc_running w q"
  shows "scan_inv p l0 cmd pc
           (w\<lparr>procs := (procs w)[q := (procs w ! q)\<lparr>stdout_lines := stdout_lines (procs w ! q) @ [l]\<rparr>]\<rparr>)"
    (is "scan_inv p l0 cmd pc ?w'")
proof -
  have len: "length (procs ?w') = length (procs w)" by simp
  have sp: "scan_process ?w' = scan_process w" and lg: "log ?w' = log w" by simp_all
  have rp: "p < length (procs w) \<Longrightarrow> read_pos (procs ?w' ! p) = read_pos (procs w ! p)"
    by (cases "q = p") simp_all
  have nth: "stdout_lines (procs ?w' ! p) ! i = stdout_lines (procs w ! p) ! i"
    if "p < length (procs w)" "i < length (stdout_lines (procs w ! p))" for i
    using that by (cases "q = p") (simp_all add: nth_append)
  note dw = delivered_write [of p l0 cmd _ w q l]
  note rw = drained_write [OF _ assms(2), of p l0 cmd l]
  note cw = completed_write [OF _ assms(2), of p l0 cmd l]
  show ?thesis
  proof (cases pc)
    case (R58 c)
    with assms(1) show ?thesis by simp
  next
    case (R59 c)
    with assms(1) show ?thesis by simp
  next
    case R62_iter
    with assms(1) have d: "delivered p l0 cmd (read_pos (procs w ! p)) w" by simp
    then have "p < length (procs w)" by (simp add: delivered_def)
    with dw [OF d] rp R62_iter assms(1) sp show ?thesis by simp
  next
    case (R62_next u)
    with assms(1) have d: "delivered p l0 cmd (read_pos (procs w ! p)) w" by simp
    then have "p < length (procs w)" by (simp add: delivered_def)
    with dw [OF d] rp R62_next assms(1) sp show ?thesis by simp
  next
    case (R63 u x)
    with assms(1) have d: "delivered p l0 cmd (read_pos (procs w ! p) - 1) w"
      and pos: "read_pos (procs w ! p) \<noteq> 0" by simp_all
    then have pl: "p < length (procs w)"
      and "read_pos (procs w ! p) - 1 < length (stdout_lines (procs w ! p))"
      by (auto simp: delivered_def)
    with dw [OF d] rp nth R63 assms(1) sp show ?thesis by simp
  next
    case (R67 u x)
    with assms(1) have d: "delivered p l0 cmd (read_pos (procs w ! p) - 1) w"
      and pos: "read_pos (procs w ! p) \<noteq> 0" by simp_all
    then have pl: "p < length (procs w)"
      and "read_pos (procs w ! p) - 1 < length (stdout_lines (procs w ! p))"
      by (auto simp: delivered_def)
    with dw [OF d] rp nth R67 assms(1) sp show ?thesis by simp
  next
    case R68
    with assms(1) rw sp show ?thesis by simp
  next
    case (R68_wait u)
    with assms(1) rw show ?thesis by simp
  next
    case R69
    with assms(1) rw show ?thesis by simp
  next
    case R70
    with assms(1) rw show ?thesis by simp
  next
    case R90
    with assms(1) cw show ?thesis by simp
  next
    case R91
    with assms(1) cw show ?thesis by simp
  next
    case R_finished
    with assms(1) cw show ?thesis by simp
  qed (use assms(1) in simp_all)
qed

lemma scan_state_write:
  assumes "scan_state t p l0 cmd w" and "step (Proc_write q l) w = Some w'"
  shows "scan_state t p l0 cmd w'"
proof -
  from assms(2) have run: "proc_running w q" and
    w': "w' = w\<lparr>procs := (procs w)[q := (procs w ! q)\<lparr>stdout_lines := stdout_lines (procs w ! q) @ [l]\<rparr>]\<rparr>"
    by (auto split: if_splits)
  from assms(1) scan_inv_write [OF _ run, of p l0 cmd "threads w ! t" l] show ?thesis
    unfolding w' by (simp add: scan_state_def)
qed

lemma set_exited_frame:
  "length (procs (set_exited q w)) = length (procs w)"
  "scan_process (set_exited q w) = scan_process w"
  "log (set_exited q w) = log w"
  "p < length (procs w) \<Longrightarrow> read_pos (procs (set_exited q w) ! p) = read_pos (procs w ! p)"
  "p < length (procs w) \<Longrightarrow> stdout_lines (procs (set_exited q w) ! p) = stdout_lines (procs w ! p)"
  "p < length (procs w) \<Longrightarrow> exited (procs w ! p) \<Longrightarrow> exited (procs (set_exited q w) ! p)"
  by (cases "q = p"; simp add: set_exited_def)+

lemma delivered_exit: "delivered p l0 cmd k w \<Longrightarrow> delivered p l0 cmd k (set_exited q w)"
  by (simp add: delivered_def set_exited_frame)

lemma drained_exit: "drained p l0 cmd w \<Longrightarrow> drained p l0 cmd (set_exited q w)"
  by (simp add: drained_def set_exited_frame)

lemma completed_exit: "completed p l0 cmd w \<Longrightarrow> completed p l0 cmd (set_exited q w)"
  by (simp add: completed_def set_exited_frame)

lemma scan_inv_exit:
  assumes "scan_inv p l0 cmd pc w"
  shows "scan_inv p l0 cmd pc (set_exited q w)"
proof (cases pc)
  case R62_iter
  with assms have d: "delivered p l0 cmd (read_pos (procs w ! p)) w" by simp
  then have "p < length (procs w)" by (simp add: delivered_def)
  with delivered_exit [OF d] R62_iter assms show ?thesis by (simp add: set_exited_frame)
next
  case (R62_next u)
  with assms have d: "delivered p l0 cmd (read_pos (procs w ! p)) w" by simp
  then have "p < length (procs w)" by (simp add: delivered_def)
  with delivered_exit [OF d] R62_next assms show ?thesis by (simp add: set_exited_frame)
next
  case (R63 u x)
  with assms have d: "delivered p l0 cmd (read_pos (procs w ! p) - 1) w" by simp
  then have "p < length (procs w)" by (simp add: delivered_def)
  with delivered_exit [OF d] R63 assms show ?thesis by (simp add: set_exited_frame)
next
  case (R67 u x)
  with assms have d: "delivered p l0 cmd (read_pos (procs w ! p) - 1) w" by simp
  then have "p < length (procs w)" by (simp add: delivered_def)
  with delivered_exit [OF d] R67 assms show ?thesis by (simp add: set_exited_frame)
qed (use assms in \<open>simp_all add: set_exited_frame drained_exit completed_exit\<close>)

lemma scan_state_exit:
  assumes "scan_state t p l0 cmd w" and "step (Proc_exit q) w = Some w'"
  shows "scan_state t p l0 cmd w'"
proof -
  from assms(2) have w': "w' = set_exited q w" by (auto split: if_splits)
  have "threads (set_exited q w) = threads w" "stop_event (set_exited q w) = stop_event w"
    by (simp_all add: set_exited_def)
  with assms(1) scan_inv_exit [of p l0 cmd "threads w ! t" w q] show ?thesis
    unfolding w' by (simp add: scan_state_def)
qed

lemma scan_state_step:
  assumes "scan_state t p l0 cmd w" and "scan_action t a" and "step a w = Some w'"
  shows "scan_state t p l0 cmd w'"
proof (cases a)
  case (Bg_step u)
  with assms(2) have "u = t" by simp
  with Bg_step assms(1,3) show ?thesis by (auto intro: scan_state_bg)
next
  case (Proc_write q l)
  with assms(1,3) show ?thesis by (auto intro: scan_state_write)
next
  case (Proc_exit q)
  with assms(1,3) show ?thesis by (auto intro: scan_state_exit)
qed (use assms(2) in simp_all)

lemma scan_state_run:
  "scan_state t p l0 cmd w \<Longrightarrow> list_all (scan_action t) as \<Longrightarrow> run as w = Some w' \<Longrightarrow>
   scan_state t p l0 cmd w'"
proof (induction as arbitrary: w)
  case Nil
  then show ?case by simp
next
  case (Cons a as)
  from Cons.prems(3) obtain w1 where s: "step a w = Some w1" and r: "run as w1 = Some w'"
    by (auto split: option.splits)
  from Cons.prems(1,2) s have "scan_state t p l0 cmd w1"
    by (auto intro: scan_state_step)
  with Cons.IH Cons.prems(2) r show ?case by simp
qed

text \<open>
  Claim C7, amended. A scan is started and, until its thread ends, only that thread and
  the processes move (no call of \<^verbatim>\<open>stop_scan\<close>, no failure). Then the log has grown by the
  \<^verbatim>\<open>"Starting scan: "\<close> line with the command joined by spaces, then every line the process
  wrote, in the order written, each with the white space removed at both ends, then
  \<^verbatim>\<open>"Scan completed successfully."\<close>.
\<close>

theorem run_scan_normal_log:
  assumes "fg w = F_idle" and "\<not> session_active w"
    and "build_nmap_command target port_range opts = Inr cmd"
    and "list_all (scan_action (length (threads w))) as"
    and "run (Call_start target port_range opts # as) w = Some w'"
    and "threads w' ! length (threads w) = R_finished"
  shows "log w' =
           log w @ [''Starting scan: '' @ str_join '' '' cmd]
                 @ map py_strip (stdout_lines (procs w' ! length (procs w)))
                 @ [''Scan completed successfully.'']"
proof -
  define w1 where "w1 = w\<lparr>stop_event := False, scan_thread := Some (length (threads w)),
                           threads := threads w @ [R58 cmd]\<rparr>"
  have "step (Call_start target port_range opts) w = Some w1"
    using assms(1-3) by (simp add: start_scan_def w1_def)
  with assms(5) have r: "run as w1 = Some w'" by simp
  have "scan_state (length (threads w)) (length (procs w)) (log w) cmd w1"
    by (simp add: scan_state_def w1_def)
  then have "scan_state (length (threads w)) (length (procs w)) (log w) cmd w'"
    using assms(4) r by (rule scan_state_run)
  with assms(6) show ?thesis
    by (simp add: scan_state_def completed_def start_line_def)
qed

theorem run_scan_normal_log_witness:
  "run (Call_start (Some ''10.0.0.5'') None Map.empty #
     [Bg_step 0, Bg_step 0, Bg_step 0, Proc_write 0 ''  80/tcp open  '',
      Bg_step 0, Bg_step 0, Bg_step 0, Proc_exit 0,
      Bg_step 0, Bg_step 0, Bg_step 0, Bg_step 0, Bg_step 0, Bg_step 0, Bg_step 0]) init_world =
     Some \<lparr>scan_thread = Some 0, scan_process = None, stop_event = False,
       log = [''Starting scan: nmap 10.0.0.5'', ''80/tcp open'', ''Scan completed successfully.''],
       threads = [R_finished],
       procs = [\<lparr>argv = [''nmap'', ''10.0.0.5''], stdout_lines = [''  80/tcp open  ''],
                 read_pos = 1, exited = True\<rparr>],
       fg = F_idle, raised = []\<rparr> \<and>
   log \<lparr>scan_thread = Some 0, scan_process = None, stop_event = False,
       log = [''Starting scan: nmap 10.0.0.5'', ''80/tcp open'', ''Scan completed successfully.''],
       threads = [R_finished],
       procs = [\<lparr>argv = [''nmap'', ''10.0.0.5''], stdout_lines = [''  80/tcp open  ''],
                 read_pos = 1, exited = True\<rparr>],
       fg = F_idle, raised = []\<rparr> =
     [''Starting scan: nmap 10.0.0.5''] @ map py_strip [''  80/tcp open  '']
     @ [''Scan completed successfully.'']"
  using run_scan_normal_log [of init_world "Some ''10.0.0.5''" None Map.empty
    "[''nmap'', ''10.0.0.5'']"
    "[Bg_step 0, Bg_step 0, Bg_step 0, Proc_write 0 ''  80/tcp open  '',
      Bg_step 0, Bg_step 0, Bg_step 0, Proc_exit 0,
      Bg_step 0, Bg_step 0, Bg_step 0, Bg_step 0, Bg_step 0, Bg_step 0, Bg_step 0]"
    "\<lparr>scan_thread = Some 0, scan_process = None, stop_event = False,
       log = [''Starting scan: nmap 10.0.0.5'', ''80/tcp open'', ''Scan completed successfully.''],
       threads = [R_finished],
       procs = [\<lparr>argv = [''nmap'', ''10.0.0.5''], stdout_lines = [''  80/tcp open  ''],
                 read_pos = 1, exited = True\<rparr>],
       fg = F_idle, raised = []\<rparr>"]
  by (simp add: eval_defs)

text \<open>
  Claim C7 as written has the lines trimmed at the end only. \<^verbatim>\<open>line.strip()\<close> (line 67)
  also removes the indentation: the line delivered differs from \<^verbatim>\<open>line.rstrip()\<close>.
\<close>

theorem run_scan_normal_log_counterexample:
  "map_option log
     (run [Call_start (Some ''10.0.0.5'') None Map.empty,
           Bg_step 0, Bg_step 0, Bg_step 0, Proc_write 0 (''  80/tcp open'' @ [CHR 0x0A]),
           Bg_step 0, Bg_step 0, Bg_step 0, Proc_exit 0,
           Bg_step 0, Bg_step 0, Bg_step 0, Bg_step 0, Bg_step 0, Bg_step 0, Bg_step 0]
        init_world)
     = Some [''Starting scan: nmap 10.0.0.5'', ''80/tcp open'', ''Scan completed successfully.''] \<and>
   py_rstrip (''  80/tcp open'' @ [CHR 0x0A]) = ''  80/tcp open''"
  by (simp add: eval_defs)


end
